theory Spec2Isabelle
  imports Complex_Main "HOL-Library.Word"
begin

section \<open>Data model of \<^verbatim>\<open>include/eznve.hpp\<close>\<close>

text \<open>
  Machine types of the header: \<^verbatim>\<open>std::byte\<close> is an 8-bit word, \<^verbatim>\<open>void*\<close> and
  \<^verbatim>\<open>CUdeviceptr\<close> (an \<^verbatim>\<open>unsigned long long\<close>) are 64-bit words with \<^verbatim>\<open>nullptr\<close>
  as 0, \<^verbatim>\<open>std::size_t\<close> is a 64-bit word, \<^verbatim>\<open>uint32_t\<close> a 32-bit word.  Arithmetic on
  them wraps around as in C++.
\<close>

type_synonym byte = "8 word"
type_synonym ptr = "64 word"
type_synonym CUdeviceptr = "64 word"
type_synonym size_t = "64 word"
type_synonym uint32_t = "32 word"
type_synonym uint64_t = "64 word"

text \<open>CUDA's \<^verbatim>\<open>uint2\<close>: two \<^verbatim>\<open>unsigned int\<close> members \<^verbatim>\<open>x\<close> and \<^verbatim>\<open>y\<close>.\<close>

record uint2 =
  uint2_x :: uint32_t
  uint2_y :: uint32_t

datatype codec = h264 | hevc

datatype frame_flag = none | idr

text \<open>
  \<^verbatim>\<open>struct chunk_info\<close>.  The \<^verbatim>\<open>std::span<const char>\<close> is a view of bytes that is valid
  during the callback only; the model holds the bytes viewed.
\<close>

record chunk_info =
  data :: "byte list"
  index :: uint32_t
  timestamp :: uint64_t
  duration :: uint64_t

text \<open>
  The private members of \<^verbatim>\<open>class encoder\<close>, in declaration order.  A callable of type
  \<^verbatim>\<open>std::move_only_function<void(const chunk_info&)>\<close> is opaque: it is a value of the
  type parameter \<open>'cb\<close>, and \<open>None\<close> is the empty wrapper.  \<open>pbuf\<close> is the address held
  by the \<^verbatim>\<open>std::unique_ptr<param_buffer_t>\<close> (0 when it owns nothing).  The member
  \<^verbatim>\<open>fps_\<close> is named \<open>fps_xy\<close> here, since an identifier cannot end in an underscore.
\<close>

record 'cb encoder =
  data_cb :: "'cb option"
  pbuf :: ptr
  input_buffer :: CUdeviceptr
  dims :: uint2
  fps_xy :: uint2
  in_registration :: ptr
  out_stream :: ptr
  session :: ptr
  bytes_encoded :: size_t
  frames_encoded :: uint32_t

subsection \<open>Double-precision values\<close>

text \<open>
  \<^verbatim>\<open>fps()\<close> and \<^verbatim>\<open>time()\<close> compute in \<^verbatim>\<open>double\<close>.  A double is a finite real, an
  infinity or a NaN.  Every operand in this header is the conversion of an unsigned
  integer or a quotient of such, so only non-negative values and the positive infinity
  occur.  The conversion of a 32-bit unsigned integer to \<^verbatim>\<open>double\<close> is exact (53 bits
  of mantissa).  Division rounds the exact quotient with the rounding function \<open>rnd\<close>
  of the floating-point format, which is a parameter of the model; the theorems below
  constrain it by the relative error bound of the format.  A division whose divisor is
  zero gives a NaN or an infinity, not a number.
\<close>

datatype double = Finite real | Infinity | NaN

fun fdiv :: "(real \<Rightarrow> real) \<Rightarrow> double \<Rightarrow> double \<Rightarrow> double" where
  "fdiv rnd NaN b = NaN"
| "fdiv rnd a NaN = NaN"
| "fdiv rnd Infinity Infinity = NaN"
| "fdiv rnd Infinity (Finite b) = Infinity"
| "fdiv rnd (Finite a) Infinity = Finite 0"
| "fdiv rnd (Finite a) (Finite b) =
     (if b = 0 then (if a = 0 then NaN else Infinity) else Finite (rnd (a / b)))"

definition double_of_uint32 :: "uint32_t \<Rightarrow> double" where
  "double_of_uint32 n = Finite (real (unat n))"

text \<open>
  Rounding to the nearest number with 53 bits of mantissa, ties to the even mantissa, the
  exponent unbounded.  This is the rounding of IEEE binary64 wherever the result lies in
  the normal range of the format; it serves as an instance of \<open>rnd\<close>.
\<close>

definition round_binary64 :: "real \<Rightarrow> real" where
  "round_binary64 x =
     (if x = 0 then 0
      else let e = \<lfloor>log 2 \<bar>x\<bar>\<rfloor>;
               ulp = 2 powr (real_of_int e - 52);
               m = \<bar>x\<bar> / ulp;
               f = \<lfloor>m\<rfloor>;
               n = (if m - of_int f < 1 / 2 then f
                    else if 1 / 2 < m - of_int f then f + 1
                    else if even f then f else f + 1)
           in sgn x * of_int n * ulp)"

subsection \<open>The observers\<close>

text \<open>\<^verbatim>\<open>CUdeviceptr buffer() const noexcept { return input_buffer; }\<close>\<close>

definition buffer :: "'cb encoder \<Rightarrow> CUdeviceptr" where
  "buffer e = input_buffer e"

text \<open>\<^verbatim>\<open>auto width() const noexcept { return dims.x; }\<close>\<close>

definition width :: "'cb encoder \<Rightarrow> uint32_t" where
  "width e = uint2_x (dims e)"

text \<open>\<^verbatim>\<open>auto height() const noexcept { return dims.y; }\<close>\<close>

definition height :: "'cb encoder \<Rightarrow> uint32_t" where
  "height e = uint2_y (dims e)"

text \<open>\<^verbatim>\<open>double fps() const noexcept { return double(fps_.x)/fps_.y; }\<close>\<close>

definition fps :: "(real \<Rightarrow> real) \<Rightarrow> 'cb encoder \<Rightarrow> double" where
  "fps rnd e =
     fdiv rnd (double_of_uint32 (uint2_x (fps_xy e))) (double_of_uint32 (uint2_y (fps_xy e)))"

text \<open>\<^verbatim>\<open>auto fps_exact() const noexcept { return fps_; }\<close>\<close>

definition fps_exact :: "'cb encoder \<Rightarrow> uint2" where
  "fps_exact e = fps_xy e"

text \<open>\<^verbatim>\<open>auto total_bytes() const noexcept { return bytes_encoded; }\<close>\<close>

definition total_bytes :: "'cb encoder \<Rightarrow> size_t" where
  "total_bytes e = bytes_encoded e"

text \<open>\<^verbatim>\<open>auto total_frames() const noexcept { return frames_encoded; }\<close>\<close>

definition total_frames :: "'cb encoder \<Rightarrow> uint32_t" where
  "total_frames e = frames_encoded e"

text \<open>\<^verbatim>\<open>double time() const noexcept { return total_frames() / fps(); }\<close>\<close>

definition time :: "(real \<Rightarrow> real) \<Rightarrow> 'cb encoder \<Rightarrow> double" where
  "time rnd e = fdiv rnd (double_of_uint32 (total_frames e)) (fps rnd e)"

text \<open>
  A call of an observer as a step on the object: it takes the encoder and gives back the
  value returned together with the encoder as the call leaves it.
\<close>

datatype observer =
  Buffer | Width | Height | Fps | Fps_exact | Total_bytes | Total_frames | Time

datatype observed =
  Device_ptr CUdeviceptr | Uint32 uint32_t | Double double | Uint2 uint2 | Size size_t

fun call_observer :: "(real \<Rightarrow> real) \<Rightarrow> observer \<Rightarrow> 'cb encoder \<Rightarrow> observed \<times> 'cb encoder" where
  "call_observer rnd Buffer e = (Device_ptr (buffer e), e)"
| "call_observer rnd Width e = (Uint32 (width e), e)"
| "call_observer rnd Height e = (Uint32 (height e), e)"
| "call_observer rnd Fps e = (Double (fps rnd e), e)"
| "call_observer rnd Fps_exact e = (Uint2 (fps_exact e), e)"
| "call_observer rnd Total_bytes e = (Size (total_bytes e), e)"
| "call_observer rnd Total_frames e = (Uint32 (total_frames e), e)"
| "call_observer rnd Time e = (Double (time rnd e), e)"

fun call_observers :: "(real \<Rightarrow> real) \<Rightarrow> observer list \<Rightarrow> 'cb encoder \<Rightarrow> observed list \<times> 'cb encoder" where
  "call_observers rnd [] e = ([], e)"
| "call_observers rnd (ob # obs) e =
     (case call_observer rnd ob e of
        (v, e') \<Rightarrow> (case call_observers rnd obs e' of (vs, e'') \<Rightarrow> (v # vs, e'')))"

subsection \<open>The callback slot\<close>

text \<open>\<^verbatim>\<open>auto set_callback(data_callback_t&& cb) { data_cb = std::move(cb); }\<close>\<close>

definition set_callback :: "'cb option \<Rightarrow> 'cb encoder \<Rightarrow> 'cb encoder" where
  "set_callback cb e = e\<lparr>data_cb := cb\<rparr>"

subsection \<open>The scratch buffer\<close>

text \<open>
  \<^verbatim>\<open>using param_buffer_t = std::array<std::byte, 2048>\<close>, allocated on the heap by
  \<^verbatim>\<open>std::make_unique\<close>.  Memory is a store from byte addresses to bytes.  The array
  owned by the pointer \<open>p\<close> occupies the 2048 addresses from \<open>p\<close> on.
\<close>

type_synonym memory = "ptr \<Rightarrow> byte"

definition param_buffer_size :: nat where
  "param_buffer_size = 2048"

definition param_buffer :: "ptr \<Rightarrow> ptr set" where
  "param_buffer p = (\<lambda>i. p + of_nat i) ` {..<param_buffer_size}"

text \<open>
  \<^verbatim>\<open>memset(dest, ch, count)\<close> stores \<open>ch\<close> in each of the first \<open>count\<close> bytes from
  \<open>dest\<close> on, in ascending order.  It knows nothing of the size of the object at \<open>dest\<close>.
\<close>

fun memset :: "memory \<Rightarrow> ptr \<Rightarrow> byte \<Rightarrow> nat \<Rightarrow> memory" where
  "memset m dest ch 0 = m"
| "memset m dest ch (Suc n) = (memset m dest ch n)(dest + of_nat n := ch)"

datatype error = Null_dereference | Empty_callback

text \<open>
  \<^verbatim>\<open>
  template<typename T>
  T* pbuf_as() noexcept {
    memset(pbuf->data(), 0, sizeof(T));
    return reinterpret_cast<T*>(pbuf->data());
  }
  \<close>
  The type \<open>T\<close> enters through \<open>sizeof(T)\<close> only, the first argument here.  Going through
  a \<^verbatim>\<open>unique_ptr\<close> that owns nothing is the one failure; there is no comparison of
  \<open>sizeof(T)\<close> with the size of the array.
\<close>

definition pbuf_as :: "nat \<Rightarrow> 'cb encoder \<Rightarrow> memory \<Rightarrow> error + (ptr \<times> memory)" where
  "pbuf_as sizeof_T e m =
     (if pbuf e = 0 then Inl Null_dereference
      else Inr (pbuf e, memset m (pbuf e) 0 sizeof_T))"

text \<open>The bytes of an object of \<open>n\<close> bytes at address \<open>p\<close>.\<close>

definition object_bytes :: "memory \<Rightarrow> ptr \<Rightarrow> nat \<Rightarrow> byte list" where
  "object_bytes m p n = map (\<lambda>i. m (p + of_nat i)) [0..<n]"

subsection \<open>Move construction, move assignment and member destruction\<close>

text \<open>
  The resources an encoder gives back, as events in the order they happen.
\<close>

datatype release =
  Unregister_resource ptr | Destroy_stream ptr | Destroy_session ptr | Free_param_buffer ptr

text \<open>
  The destructor of \<^verbatim>\<open>std::unique_ptr<param_buffer_t>\<close>: it deletes the array it owns,
  and does nothing when it owns none.
\<close>

definition unique_ptr_dtor :: "ptr \<Rightarrow> release list" where
  "unique_ptr_dtor p = (if p = 0 then [] else [Free_param_buffer p])"

text \<open>
  What a defaulted move leaves in its source: each member is moved on its own.  The
  \<^verbatim>\<open>unique_ptr\<close> gives up its array and holds \<^verbatim>\<open>nullptr\<close>, the callable wrapper is left
  without a target (the standard leaves its state unspecified; the implementations empty
  it), and the members of scalar type (\<^verbatim>\<open>CUdeviceptr\<close>, \<^verbatim>\<open>uint2\<close>, \<^verbatim>\<open>void*\<close>,
  \<^verbatim>\<open>size_t\<close>, \<^verbatim>\<open>uint32_t\<close>) are copied and keep their values.
\<close>

definition moved_from :: "'cb encoder \<Rightarrow> 'cb encoder" where
  "moved_from e = e\<lparr>data_cb := None, pbuf := 0\<rparr>"

text \<open>
  \<^verbatim>\<open>encoder(encoder&&) noexcept = default;\<close>  The result is the new object and the source
  as the move leaves it.
\<close>

definition move_construct :: "'cb encoder \<Rightarrow> 'cb encoder \<times> 'cb encoder" where
  "move_construct other = (other, moved_from other)"

text \<open>
  \<^verbatim>\<open>encoder& operator=(encoder&&) = default;\<close> applied to two distinct objects.  The
  result is the target, the source as the move leaves it, and what the assignment
  releases: the \<^verbatim>\<open>unique_ptr\<close> of the target deletes the array it owned before; the
  handles the target held are overwritten.
\<close>

definition move_assign :: "'cb encoder \<Rightarrow> 'cb encoder \<Rightarrow> ('cb encoder \<times> 'cb encoder) \<times> release list" where
  "move_assign this other = ((other, moved_from other), unique_ptr_dtor (pbuf this))"

text \<open>
  The same operator applied to one object, \<^verbatim>\<open>a = std::move(a)\<close>: source and target are
  the same members, each member is assigned to itself, the \<^verbatim>\<open>unique_ptr\<close> keeps its
  array, and nothing is released.
\<close>

definition self_move_assign :: "'cb encoder \<Rightarrow> 'cb encoder \<times> release list" where
  "self_move_assign this = (this, [])"

section \<open>The operations declared in the header and defined elsewhere\<close>

text \<open>
  The header declares \<^verbatim>\<open>encoder::~encoder\<close>, \<^verbatim>\<open>encoder::submit_frame\<close> and
  \<^verbatim>\<open>encoder::flush\<close>; their bodies are in no file under \<^verbatim>\<open>src/\<close>.  They are modelled
  from the specification, sections 3 and 4.
\<close>

subsection \<open>Teardown\<close>

text \<open>
  Modelled from the spec: the body of \<^verbatim>\<open>encoder::~encoder\<close>, which is missing from the
  sources.  Section 4.1, \<open>close\<close>: it ``unregisters the input buffer, destroys the output
  stream, destroys the session handle'', in that order, on the handles the object holds.
\<close>

definition destructor_body :: "'cb encoder \<Rightarrow> release list" where
  "destructor_body e =
     [Unregister_resource (in_registration e), Destroy_stream (out_stream e),
      Destroy_session (session e)]"

text \<open>
  The destruction of an encoder: the destructor's body, then the destructors of the
  members; of these, the one of \<open>pbuf\<close> releases the scratch buffer.
\<close>

definition destroy :: "'cb encoder \<Rightarrow> release list" where
  "destroy e = destructor_body e @ unique_ptr_dtor (pbuf e)"

text \<open>
  \<^verbatim>\<open>{ encoder a(...); encoder b(std::move(a)); }\<close>: at the end of the scope \<open>b\<close> is
  destroyed, then \<open>a\<close>.
\<close>

definition scope_move_construct :: "'cb encoder \<Rightarrow> release list" where
  "scope_move_construct a = (case move_construct a of (b, a') \<Rightarrow> destroy b @ destroy a')"

text \<open>
  \<^verbatim>\<open>{ encoder a(...); encoder b(...); b = std::move(a); }\<close>: the assignment, then the
  destruction of \<open>b\<close>, then of \<open>a\<close>.
\<close>

definition scope_move_assign :: "'cb encoder \<Rightarrow> 'cb encoder \<Rightarrow> release list" where
  "scope_move_assign a b =
     (case move_assign b a of ((b', a'), freed) \<Rightarrow> freed @ destroy b' @ destroy a')"

subsection \<open>The hardware and the chunk delivery path\<close>

text \<open>
  Modelled from the spec: the hardware SDK, which is outside the repository (section 1:
  ``a capability providing create session, register buffer, encode, flush, destroy
  primitives with their own success/failure codes'').  One call of the hardware answers
  whether it accepted the request and which completed bitstream payloads the output
  stream holds, in the order they are retrieved.
\<close>

record hw_reply =
  accepted :: bool
  payloads :: "byte list list"

text \<open>
  Modelled from the spec: how a chunk's timestamp and duration are computed, which is
  missing from the sources.  Section 4.3 names the inputs (the frames encoded so far and
  the frame rate) and leaves the time unit and the rounding open, so the computation is
  a parameter: from the frame rate, the frame counter and the chunk index to the
  timestamp and the duration.
\<close>

type_synonym stamp = "uint2 \<Rightarrow> uint32_t \<Rightarrow> uint32_t \<Rightarrow> uint64_t \<times> uint64_t"

text \<open>
  The invocations of callbacks, oldest first: which callable was invoked with which
  chunk.  A state of the session is the encoder, the running chunk counter of
  section 4.3 (the class has no member for it) and the invocations so far.
\<close>

type_synonym 'cb trace = "('cb \<times> chunk_info) list"

type_synonym 'cb state = "'cb encoder \<times> uint32_t \<times> 'cb trace"

text \<open>
  Modelled from the spec: the construction of a chunk, missing from the sources.
  Section 4.3: ``data view bounded to the completed payload's exact byte range; index =
  running chunk counter; timestamp = (frames_encoded_so_far) / frame_rate [...];
  duration = 1 / frame_rate in the same unit''.
\<close>

definition make_chunk :: "stamp \<Rightarrow> 'cb encoder \<Rightarrow> uint32_t \<Rightarrow> byte list \<Rightarrow> chunk_info" where
  "make_chunk st e k p =
     \<lparr>data = p, index = k,
      timestamp = fst (st (fps_xy e) (frames_encoded e) k),
      duration = snd (st (fps_xy e) (frames_encoded e) k)\<rparr>"

text \<open>
  Modelled from the spec: the chunk delivery path, missing from the sources.
  Section 4.3: for each completed payload it constructs a chunk, ``invokes the active
  callback exactly once per completed chunk, synchronously'', and ``adds the chunk's byte
  length to the running byte counter''.  Invoking a \<^verbatim>\<open>std::move_only_function\<close> that has
  no target is an error.
\<close>

fun deliver :: "stamp \<Rightarrow> byte list list \<Rightarrow> 'cb state \<Rightarrow> error + 'cb state" where
  "deliver st [] s = Inr s"
| "deliver st (p # ps) (e, k, t) =
     (case data_cb e of
        None \<Rightarrow> Inl Empty_callback
      | Some cb \<Rightarrow>
          deliver st ps
            (e\<lparr>bytes_encoded := bytes_encoded e + of_nat (length p)\<rparr>, k + 1,
             t @ [(cb, make_chunk st e k p)]))"

subsection \<open>Frame submission and flush\<close>

text \<open>
  Modelled from the spec: the body of \<^verbatim>\<open>encoder::submit_frame\<close>, missing from the
  sources.  Section 4.2: it ``issues one encode operation''; it ``returns false (failure)
  if the hardware rejects the encode call [...]; it does not close the session'', and
  then ``counters are left unchanged (no partial increment)'' (section 7); otherwise the
  chunk delivery path runs and it ``increments the frame counter by exactly one after the
  hardware call reports acceptance'' (section 2: encode call, then callbacks, then
  ``counters update'').  The flag goes to the hardware, whose answer is \<open>r\<close>.
\<close>

definition submit_frame :: "stamp \<Rightarrow> frame_flag \<Rightarrow> hw_reply \<Rightarrow> 'cb state \<Rightarrow> error + (bool \<times> 'cb state)" where
  "submit_frame st flag r s =
     (if \<not> accepted r then Inr (False, s)
      else case deliver st (payloads r) s of
             Inl err \<Rightarrow> Inl err
           | Inr (e, k, t) \<Rightarrow> Inr (True, (e\<lparr>frames_encoded := frames_encoded e + 1\<rparr>, k, t)))"

text \<open>
  Modelled from the spec: the body of \<^verbatim>\<open>encoder::flush\<close>, missing from the sources.
  Section 4.2: it ``returns false if the hardware drain operation fails; the session
  remains open and usable''; otherwise it emits ``all resulting output chunks before
  returning'' and ``resets both the byte counter and frame counter to zero after all
  buffered output has been delivered via the callback''.  Chunk indices count ``since
  last reset'' (section 3), so the chunk counter is reset with them.
\<close>

definition flush :: "stamp \<Rightarrow> hw_reply \<Rightarrow> 'cb state \<Rightarrow> error + (bool \<times> 'cb state)" where
  "flush st r s =
     (if \<not> accepted r then Inr (False, s)
      else case deliver st (payloads r) s of
             Inl err \<Rightarrow> Inl err
           | Inr (e, k, t) \<Rightarrow> Inr (True, (e\<lparr>bytes_encoded := 0, frames_encoded := 0\<rparr>, 0, t)))"

text \<open>A sequence of calls on one session, each with the hardware's answer to it.\<close>

datatype op = Submit frame_flag hw_reply | Flush hw_reply

fun step :: "stamp \<Rightarrow> op \<Rightarrow> 'cb state \<Rightarrow> error + (bool \<times> 'cb state)" where
  "step st (Submit flag r) s = submit_frame st flag r s"
| "step st (Flush r) s = flush st r s"

fun run :: "stamp \<Rightarrow> op list \<Rightarrow> 'cb state \<Rightarrow> error + (bool list \<times> 'cb state)" where
  "run st [] s = Inr ([], s)"
| "run st (c # cs) s =
     (case step st c s of
        Inl err \<Rightarrow> Inl err
      | Inr (ok, s') \<Rightarrow>
          (case run st cs s' of
             Inl err \<Rightarrow> Inl err
           | Inr (oks, s'') \<Rightarrow> Inr (ok # oks, s'')))"

text \<open>
  The payloads the hardware completes in the course of a sequence of calls, in the order
  in which they are retrieved: those of the calls it accepts.  By sections 4.2 and 4.3
  these, and no others, are the chunks the calls have to deliver.
\<close>

fun op_reply :: "op \<Rightarrow> hw_reply" where
  "op_reply (Submit flag r) = r"
| "op_reply (Flush r) = r"

definition completed_payloads :: "op list \<Rightarrow> byte list list" where
  "completed_payloads ops =
     concat (map (\<lambda>c. if accepted (op_reply c) then payloads (op_reply c) else []) ops)"

subsection \<open>Sessions used as examples\<close>

text \<open>
  A session as the constructor leaves it for 1920 by 1080 at 30000/1001 frames per
  second: handles and buffers are whatever the hardware and the allocator returned, the
  counters have their default member initialisers.
\<close>

definition session_1080p :: "'cb option \<Rightarrow> 'cb encoder" where
  "session_1080p cb =
     \<lparr>data_cb = cb, pbuf = 0x1000, input_buffer = 0x7000000,
      dims = \<lparr>uint2_x = 1920, uint2_y = 1080\<rparr>,
      fps_xy = \<lparr>uint2_x = 30000, uint2_y = 1001\<rparr>,
      in_registration = 0x10, out_stream = 0x20, session = 0x30,
      bytes_encoded = 0, frames_encoded = 0\<rparr>"

text \<open>A second session, with handles and buffers of its own.\<close>

definition session_720p :: "'cb option \<Rightarrow> 'cb encoder" where
  "session_720p cb =
     \<lparr>data_cb = cb, pbuf = 0x2000, input_buffer = 0x8000000,
      dims = \<lparr>uint2_x = 1280, uint2_y = 720\<rparr>,
      fps_xy = \<lparr>uint2_x = 25, uint2_y = 1\<rparr>,
      in_registration = 0x11, out_stream = 0x21, session = 0x31,
      bytes_encoded = 0, frames_encoded = 0\<rparr>"

text \<open>
  A stamping that counts in frame periods: the timestamp is the frame counter and the
  duration is 1.
\<close>

definition frame_units :: stamp where
  "frame_units rate n k = (ucast n, 1)"

section \<open>Properties of the header's code\<close>

lemma memset_inside: "i < n \<Longrightarrow> memset m dest ch n (dest + of_nat i) = ch"
proof (induction n)
  case 0
  then show ?case by simp
next
  case (Suc n)
  show ?case
  proof (cases "i = n")
    case True
    then show ?thesis by simp
  next
    case False
    with Suc.prems have "i < n" by simp
    with Suc.IH show ?thesis by simp
  qed
qed

lemma memset_outside:
  "a \<notin> (\<lambda>i. dest + of_nat i) ` {..<n} \<Longrightarrow> memset m dest ch n a = m a"
proof (induction n)
  case 0
  then show ?case by simp
next
  case (Suc n)
  from Suc.prems have ne: "a \<noteq> dest + of_nat n" by auto
  from Suc.prems have "a \<notin> (\<lambda>i. dest + of_nat i) ` {..<n}" by auto
  with Suc.IH have "memset m dest ch n a = m a" by simp
  with ne show ?case by simp
qed

lemma call_observers_frame: "snd (call_observers rnd obs e) = e"
proof (induction obs)
  case Nil
  then show ?case by simp
next
  case (Cons ob obs)
  have one: "snd (call_observer rnd ob e) = e" by (cases ob) simp_all
  from Cons.IH one show ?case by (simp add: split_beta)
qed

subsection \<open>The observers leave the encoder as it is\<close>

text \<open>
  Claim C9.  The observers \<^verbatim>\<open>buffer()\<close>, \<^verbatim>\<open>width()\<close>, \<^verbatim>\<open>height()\<close>, \<^verbatim>\<open>fps()\<close>,
  \<^verbatim>\<open>fps_exact()\<close>, \<^verbatim>\<open>total_bytes()\<close>, \<^verbatim>\<open>total_frames()\<close> and \<^verbatim>\<open>time()\<close> modify
  nothing: after any sequence of calls of them, in any order, the encoder is the one
  before the calls, member for member (handles, dimensions, frame rate, counters and
  callback slot), and so it is after each single call.
\<close>

theorem observers_modify_nothing:
  "snd (call_observers rnd obs e) = e \<and> (\<forall>ob. snd (call_observer rnd ob e) = e)"
proof
  show "snd (call_observers rnd obs e) = e" by (rule call_observers_frame)
  show "\<forall>ob. snd (call_observer rnd ob e) = e"
  proof
    fix ob show "snd (call_observer rnd ob e) = e" by (cases ob) simp_all
  qed
qed

theorem observers_modify_nothing_witness:
  "snd (call_observers (\<lambda>x. x) [Total_frames, Time, Fps, Width, Height, Buffer, Fps_exact, Total_bytes, Time]
     (session_1080p (Some (1::nat))\<lparr>frames_encoded := 30\<rparr>))
   = session_1080p (Some 1)\<lparr>frames_encoded := 30\<rparr>"
  using observers_modify_nothing [of "\<lambda>x. x" "[Total_frames, Time, Fps, Width, Height, Buffer, Fps_exact, Total_bytes, Time]"
     "session_1080p (Some (1::nat))\<lparr>frames_encoded := 30\<rparr>"]
  by simp

subsection \<open>The scratch buffer is zeroed for each structure\<close>

text \<open>
  Claim C7.  For a session that owns its scratch buffer, \<^verbatim>\<open>pbuf_as<T>()\<close> returns the
  address of the buffer, and on return all \<open>sizeof(T)\<close> bytes of the structure at that
  address are zero, whatever the memory held before the call: no byte written for an
  earlier structure is visible.  This holds for every size; where the size exceeds the
  array, the bytes zeroed reach past it (claim C10).
\<close>

theorem pbuf_as_zeroes:
  assumes "pbuf e \<noteq> 0"
  shows "\<exists>m'. pbuf_as sizeof_T e m = Inr (pbuf e, m') \<and>
           object_bytes m' (pbuf e) sizeof_T = replicate sizeof_T 0"
proof -
  have "object_bytes (memset m (pbuf e) 0 sizeof_T) (pbuf e) sizeof_T = replicate sizeof_T 0"
    by (rule nth_equalityI) (simp_all add: object_bytes_def memset_inside)
  with assms show ?thesis by (simp add: pbuf_as_def)
qed

theorem pbuf_as_zeroes_witness:
  "\<exists>m'. pbuf_as 4 (session_1080p (None :: nat option)) (\<lambda>a. 0xFF) = Inr (0x1000, m') \<and>
         object_bytes m' 0x1000 4 = [0, 0, 0, 0]"
proof -
  have nz: "pbuf (session_1080p (None :: nat option)) \<noteq> 0" by (simp add: session_1080p_def)
  have p: "pbuf (session_1080p (None :: nat option)) = 0x1000" by (simp add: session_1080p_def)
  have r: "replicate 4 (0::byte) = [0, 0, 0, 0]" by (simp add: numeral_eq_Suc)
  from pbuf_as_zeroes [OF nz, of 4 "\<lambda>a. 0xFF"] show ?thesis unfolding p r .
qed

subsection \<open>The write of \<^verbatim>\<open>pbuf_as\<close> and the extent of the buffer\<close>

lemma outside_2048: "p + 2048 \<notin> param_buffer (p :: ptr)"
proof
  assume "p + 2048 \<in> param_buffer p"
  then obtain i where i: "i < 2048" and eq: "p + 2048 = p + of_nat i"
    by (auto simp: param_buffer_def param_buffer_size_def)
  from eq have "(of_nat i :: ptr) = 2048" by simp
  then have "unat (of_nat i :: ptr) = 2048" by simp
  with i show False by (simp add: unat_of_nat)
qed

text \<open>
  Claim C10.  \<^verbatim>\<open>pbuf_as<T>()\<close> compares \<open>sizeof(T)\<close> with nothing: for a session that
  owns its scratch buffer it writes and returns for every size.  The write stays within
  the 2048 bytes of the buffer, that is every byte of memory outside them is as before
  whatever the memory was, if and only if \<open>sizeof(T) \<le> 2048\<close>.
\<close>

theorem pbuf_as_stays_in_buffer_iff:
  assumes "pbuf e \<noteq> 0"
  shows "(\<forall>m. \<exists>m'. pbuf_as sizeof_T e m = Inr (pbuf e, m')) \<and>
         ((\<forall>m m' a. pbuf_as sizeof_T e m = Inr (pbuf e, m') \<longrightarrow> a \<notin> param_buffer (pbuf e) \<longrightarrow> m' a = m a)
            \<longleftrightarrow> sizeof_T \<le> param_buffer_size)"
proof (intro conjI iffI)
  show "\<forall>m. \<exists>m'. pbuf_as sizeof_T e m = Inr (pbuf e, m')"
    using assms by (simp add: pbuf_as_def)
next
  assume le: "sizeof_T \<le> param_buffer_size"
  show "\<forall>m m' a. pbuf_as sizeof_T e m = Inr (pbuf e, m') \<longrightarrow> a \<notin> param_buffer (pbuf e) \<longrightarrow> m' a = m a"
  proof (intro allI impI)
    fix m m' a
    assume r: "pbuf_as sizeof_T e m = Inr (pbuf e, m')" and out: "a \<notin> param_buffer (pbuf e)"
    from r assms have m': "m' = memset m (pbuf e) 0 sizeof_T" by (simp add: pbuf_as_def)
    from le have "(\<lambda>i. pbuf e + of_nat i) ` {..<sizeof_T} \<subseteq> param_buffer (pbuf e)"
      by (auto simp: param_buffer_def)
    with out have "a \<notin> (\<lambda>i. pbuf e + of_nat i) ` {..<sizeof_T}" by blast
    then show "m' a = m a" unfolding m' by (rule memset_outside)
  qed
next
  assume frame: "\<forall>m m' a. pbuf_as sizeof_T e m = Inr (pbuf e, m') \<longrightarrow> a \<notin> param_buffer (pbuf e) \<longrightarrow> m' a = m a"
  show "sizeof_T \<le> param_buffer_size"
  proof (rule ccontr)
    assume "\<not> sizeof_T \<le> param_buffer_size"
    then have big: "2048 < sizeof_T" by (simp add: param_buffer_size_def)
    let ?m = "\<lambda>a. (1 :: byte)"
    have r: "pbuf_as sizeof_T e ?m = Inr (pbuf e, memset ?m (pbuf e) 0 sizeof_T)"
      using assms by (simp add: pbuf_as_def)
    from frame r outside_2048 have "memset ?m (pbuf e) 0 sizeof_T (pbuf e + 2048) = ?m (pbuf e + 2048)"
      by blast
    moreover from memset_inside [OF big, of ?m "pbuf e" 0]
    have "memset ?m (pbuf e) 0 sizeof_T (pbuf e + 2048) = 0" by simp
    ultimately show False by simp
  qed
qed

theorem pbuf_as_stays_in_buffer_iff_witness:
  "(\<exists>m'. pbuf_as 2049 (session_1080p (None :: nat option)) (\<lambda>a. 1) = Inr (0x1000, m')) \<and>
   \<not> (\<forall>m m' a. pbuf_as 2049 (session_1080p (None :: nat option)) m = Inr (0x1000, m') \<longrightarrow>
          a \<notin> param_buffer 0x1000 \<longrightarrow> m' a = m a) \<and>
   (\<exists>m'. pbuf_as 2048 (session_1080p (None :: nat option)) (\<lambda>a. 1) = Inr (0x1000, m') \<and>
          m' (0x1000 + 2048) = 1)"
proof -
  let ?e = "session_1080p (None :: nat option)"
  have p: "pbuf ?e = 0x1000" by (simp add: session_1080p_def)
  have nz: "pbuf ?e \<noteq> 0" by (simp add: session_1080p_def)
  note big = pbuf_as_stays_in_buffer_iff [OF nz, of 2049, unfolded p]
  note fit = pbuf_as_stays_in_buffer_iff [OF nz, of 2048, unfolded p]
  from big have a: "\<exists>m'. pbuf_as 2049 ?e (\<lambda>a. 1) = Inr (0x1000, m')" by blast
  from big have b: "\<not> (\<forall>m m' a. pbuf_as 2049 ?e m = Inr (0x1000, m') \<longrightarrow>
          a \<notin> param_buffer 0x1000 \<longrightarrow> m' a = m a)"
    by (simp add: param_buffer_size_def)
  from fit obtain m' where m': "pbuf_as 2048 ?e (\<lambda>a. 1) = Inr (0x1000, m')" by blast
  from fit have "\<forall>m m' a. pbuf_as 2048 ?e m = Inr (0x1000, m') \<longrightarrow>
          a \<notin> param_buffer 0x1000 \<longrightarrow> m' a = m a"
    by (simp add: param_buffer_size_def)
  with m' outside_2048 [of "0x1000"] have "m' (0x1000 + 2048) = 1" by blast
  with m' have c: "\<exists>m'. pbuf_as 2048 ?e (\<lambda>a. 1) = Inr (0x1000, m') \<and> m' (0x1000 + 2048) = 1"
    by blast
  from a b c show ?thesis by blast
qed

subsection \<open>The time on the encoder\<close>

lemma quotient_perturbation:
  fixes a f q :: real
  assumes "0 \<le> a" "0 < f" "0 < q"
  shows "\<bar>a / f - a / q\<bar> = (a / f) * (\<bar>f - q\<bar> / q)"
proof -
  have "a / f - a / q = (a / f) * ((q - f) / q)"
    using assms by (simp add: field_simps)
  then have "\<bar>a / f - a / q\<bar> = \<bar>a / f\<bar> * (\<bar>q - f\<bar> / \<bar>q\<bar>)"
    by (simp only: abs_mult abs_divide)
  moreover have "\<bar>a / f\<bar> = a / f" using assms by simp
  moreover have "\<bar>q\<bar> = q" using assms by simp
  moreover have "\<bar>q - f\<bar> = \<bar>f - q\<bar>" by (rule abs_minus_commute)
  ultimately show ?thesis by (simp only:)
qed

text \<open>
  Two roundings in a row: for a numerator, a denominator and a frame count that are
  positive 32-bit values, the rounded quotient of the frame count by the rounded rate is
  within three relative errors of the exact quotient.
\<close>

lemma time_error_bound:
  fixes rnd :: "real \<Rightarrow> real" and a b n :: real
  assumes rnd: "\<forall>x. 1 / 2 ^ 1022 \<le> \<bar>x\<bar> \<and> \<bar>x\<bar> \<le> 2 ^ 1023 \<longrightarrow> \<bar>rnd x - x\<bar> \<le> \<bar>x\<bar> / 2 ^ 53"
    and a: "1 \<le> a" "a \<le> 2 ^ 32" and b: "1 \<le> b" "b \<le> 2 ^ 32" and n: "1 \<le> n" "n \<le> 2 ^ 32"
  shows "0 < rnd (a / b) \<and> \<bar>rnd (a / b) - a / b\<bar> \<le> (a / b) / 2 ^ 53 \<and>
         \<bar>rnd (n / rnd (a / b)) - n / (a / b)\<bar> \<le> 3 * (n / (a / b)) / 2 ^ 53"
proof -
  define f where "f = rnd (a / b)"
  define q where "q = a / b"
  define u :: real where "u = 1 / 2 ^ 53"
  define lo :: real where "lo = 1 / 2 ^ 1022"
  define hi :: real where "hi = 2 ^ 1023"
  define B :: real where "B = 2 ^ 32"
  have B: "1 \<le> B" by (simp add: B_def)
  have u: "0 < u" "u \<le> 1 / 4" by (simp_all add: u_def)
  have lo: "lo \<le> 1 / (2 * B)"
  proof -
    have "(2::real) ^ 33 \<le> 2 ^ 1022" by (rule power_increasing) simp_all
    then have "1 / (2::real) ^ 1022 \<le> 1 / 2 ^ 33" by (intro divide_left_mono) simp_all
    then show ?thesis by (simp add: lo_def B_def)
  qed
  have hi: "2 * B * B \<le> hi"
  proof -
    have "(2::real) ^ 65 \<le> 2 ^ 1023" by (rule power_increasing) simp_all
    then show ?thesis by (simp add: hi_def B_def)
  qed
  have round: "\<bar>rnd x - x\<bar> \<le> x * u" if "1 / (2 * B) \<le> x" "x \<le> 2 * B * B" for x
  proof -
    from B have "0 < 1 / (2 * B)" by simp
    with that have "0 < x" by linarith
    with that lo hi have "lo \<le> \<bar>x\<bar> \<and> \<bar>x\<bar> \<le> hi" by simp
    with rnd have "\<bar>rnd x - x\<bar> \<le> \<bar>x\<bar> / 2 ^ 53" unfolding lo_def hi_def by blast
    with \<open>0 < x\<close> show ?thesis by (simp add: u_def)
  qed
  have a': "a \<le> B" and b': "b \<le> B" and n': "n \<le> B" using a b n by (simp_all add: B_def)
  have qpos: "0 < q" using a b by (simp add: q_def)
  have qlo: "1 / B \<le> q"
  proof -
    have "1 / B \<le> 1 / b" using b b' by (intro divide_left_mono) simp_all
    also have "\<dots> \<le> a / b" using a b by (intro divide_right_mono) simp_all
    finally show ?thesis by (simp add: q_def)
  qed
  have qhi: "q \<le> B"
  proof -
    have "a / b \<le> a / 1" using a b by (intro divide_left_mono) simp_all
    with a' show ?thesis by (simp add: q_def)
  qed
  have "1 / (2 * B) \<le> 1 / B" using B by (intro divide_left_mono) simp_all
  with qlo have q1: "1 / (2 * B) \<le> q" by simp
  have "B * 1 \<le> B * (2 * B)" using B by (intro mult_left_mono) simp_all
  then have "B \<le> 2 * B * B" by simp
  with qhi have q2: "q \<le> 2 * B * B" by simp
  have fq: "\<bar>f - q\<bar> \<le> q * u" unfolding f_def q_def [symmetric] using q1 q2 by (rule round)
  have "q * u \<le> q * (1 / 4)" using u(2) qpos by (intro mult_left_mono) simp_all
  with fq have fq4: "\<bar>f - q\<bar> \<le> q / 4" by simp
  then have flo: "3 * q / 4 \<le> f" and fhi: "f \<le> 5 * q / 4" by linarith+
  from flo qpos have fpos: "0 < f" by linarith
  define t where "t = n / f"
  have npos: "0 < n" using n by simp
  have tpos: "0 < t" using npos fpos by (simp add: t_def)
  define x where "x = n / q"
  have xpos: "0 < x" using npos qpos by (simp add: x_def)
  have tx: "t \<le> 4 * x / 3"
  proof -
    have "n / f \<le> n / (3 * q / 4)" using flo qpos npos by (intro divide_left_mono) simp_all
    then show ?thesis by (simp add: t_def x_def)
  qed
  have xt: "4 * x / 5 \<le> t"
  proof -
    have "n / (5 * q / 4) \<le> n / f" using fhi fpos qpos npos by (intro divide_left_mono) simp_all
    then show ?thesis by (simp add: t_def x_def)
  qed
  have xlo: "1 / B \<le> x"
  proof -
    have "1 / B \<le> 1 / q" using qhi qpos by (intro divide_left_mono) simp_all
    also have "\<dots> \<le> n / q" using n qpos by (intro divide_right_mono) simp_all
    finally show ?thesis by (simp add: x_def)
  qed
  have xhi: "x \<le> B * B"
  proof -
    have "n / q \<le> n / (1 / B)" using qlo qpos B npos by (intro divide_left_mono) simp_all
    also have "\<dots> = n * B" by simp
    also have "\<dots> \<le> B * B" using n' B by (intro mult_right_mono) simp_all
    finally show ?thesis by (simp add: x_def)
  qed
  have t1: "1 / (2 * B) \<le> t"
  proof -
    have "1 / (2 * B) \<le> 4 * (1 / B) / 5" using B by (simp add: field_simps)
    also have "\<dots> \<le> 4 * x / 5" using xlo by simp
    finally show ?thesis using xt by simp
  qed
  have t2: "t \<le> 2 * B * B"
  proof -
    have "4 * x / 3 \<le> 2 * x" using xpos by simp
    also have "\<dots> \<le> 2 * (B * B)" using xhi by simp
    finally show ?thesis using tx by simp
  qed
  have e1: "\<bar>rnd t - t\<bar> \<le> t * u" using t1 t2 by (rule round)
  have "\<bar>t - x\<bar> = t * (\<bar>f - q\<bar> / q)"
    unfolding t_def x_def using npos fpos qpos by (intro quotient_perturbation) simp_all
  also have "\<dots> \<le> t * u"
  proof (rule mult_left_mono)
    from fq qpos show "\<bar>f - q\<bar> / q \<le> u" by (simp add: field_simps)
    from tpos show "0 \<le> t" by simp
  qed
  finally have e2: "\<bar>t - x\<bar> \<le> t * u" .
  have "t * u \<le> (4 * x / 3) * u" using tx u(1) by (intro mult_right_mono) simp_all
  with e1 e2 have "\<bar>rnd t - x\<bar> \<le> 2 * ((4 * x / 3) * u)" by linarith
  also have "\<dots> \<le> 3 * x * u" using xpos u(1) by (simp add: field_simps)
  finally have e3: "\<bar>rnd t - x\<bar> \<le> 3 * x * u" .
  from fq have c2: "\<bar>f - q\<bar> \<le> q / 2 ^ 53" by (simp add: u_def)
  from e3 have c3: "\<bar>rnd t - x\<bar> \<le> 3 * x / 2 ^ 53" by (simp add: u_def)
  from fpos c2 c3 show ?thesis unfolding f_def q_def t_def x_def by blast
qed

lemma real_unat32_range:
  fixes w :: uint32_t
  assumes "w \<noteq> 0"
  shows "1 \<le> real (unat w)" "real (unat w) \<le> 2 ^ 32"
proof -
  from assms have "1 \<le> unat w" by (simp add: Suc_le_eq unat_gt_0)
  then have "real 1 \<le> real (unat w)" by (rule of_nat_mono)
  then show "1 \<le> real (unat w)" by (simp only: of_nat_1)
  have "unat w < 2 ^ LENGTH(32)" by (rule unsigned_less)
  then have "unat w < 2 ^ 32" by simp
  then have "real (unat w) < real (2 ^ 32)" by (simp only: of_nat_less_iff)
  then show "real (unat w) \<le> 2 ^ 32" by (simp only: of_nat_power of_nat_numeral less_imp_le)
qed

text \<open>The rounding to 53 bits has the relative error of the format, at every real.\<close>

lemma round_binary64_error: "\<bar>round_binary64 x - x\<bar> \<le> \<bar>x\<bar> / 2 ^ 53"
proof (cases "x = 0")
  case True
  then show ?thesis by (simp add: round_binary64_def)
next
  case False
  define e where "e = \<lfloor>log 2 \<bar>x\<bar>\<rfloor>"
  define ulp where "ulp = 2 powr (real_of_int e - 52)"
  define m where "m = \<bar>x\<bar> / ulp"
  define f where "f = \<lfloor>m\<rfloor>"
  define n where "n = (if m - of_int f < 1 / 2 then f
                    else if 1 / 2 < m - of_int f then f + 1
                    else if even f then f else f + 1)"
  have r: "round_binary64 x = sgn x * of_int n * ulp"
    using False by (simp add: round_binary64_def Let_def e_def ulp_def m_def f_def n_def)
  have ulp: "0 < ulp" by (simp add: ulp_def)
  have x: "\<bar>x\<bar> = m * ulp" using ulp by (simp add: m_def)
  have fl: "of_int f \<le> m" "m < of_int f + 1" by (simp_all add: f_def)
  then have near: "\<bar>of_int n - m\<bar> \<le> 1 / 2" by (auto simp: n_def)
  have "real_of_int e \<le> log 2 \<bar>x\<bar>" by (simp add: e_def)
  then have "2 powr real_of_int e \<le> \<bar>x\<bar>" using False by (simp add: powr_le_iff)
  then have "2 powr real_of_int e / ulp \<le> m" unfolding m_def using ulp
    by (simp add: divide_right_mono)
  moreover have "2 powr real_of_int e / ulp = 2 powr 52"
    by (simp add: ulp_def powr_diff [symmetric])
  moreover have "(2::real) powr 52 = 2 ^ 52" by (simp add: powr_numeral)
  ultimately have big: "2 ^ 52 \<le> m" by simp
  have "x = sgn x * (m * ulp)" by (subst x [symmetric]) (simp add: mult_sgn_abs)
  then have "sgn x * of_int n * ulp - x = sgn x * of_int n * ulp - sgn x * (m * ulp)" by simp
  then have "round_binary64 x - x = sgn x * ((of_int n - m) * ulp)"
    unfolding r by (simp add: algebra_simps)
  then have "\<bar>round_binary64 x - x\<bar> = \<bar>of_int n - m\<bar> * ulp"
    using False ulp by (simp add: abs_mult abs_sgn_eq)
  also have "\<dots> \<le> (m / 2 ^ 53) * ulp"
  proof (rule mult_right_mono)
    from big have "1 / 2 \<le> m / 2 ^ 53" by simp
    with near show "\<bar>of_int n - m\<bar> \<le> m / 2 ^ 53" by linarith
    from ulp show "0 \<le> ulp" by simp
  qed
  also have "\<dots> = \<bar>x\<bar> / 2 ^ 53" by (simp add: x)
  finally show ?thesis .
qed

lemma round_binary64_zero: "round_binary64 0 = 0"
  by (simp add: round_binary64_def)

text \<open>
  Claim C8.  \<^verbatim>\<open>time()\<close> returns \<^verbatim>\<open>total_frames()\<close> divided by \<^verbatim>\<open>fps()\<close>, and \<^verbatim>\<open>fps()\<close>
  is the numerator divided by the denominator, both in floating point.  For every
  rounding that is exact at 0 and has the relative error of IEEE binary64 on its normal
  range (at most one part in \<open>2 ^ 53\<close>): when numerator and denominator are not 0,
  \<^verbatim>\<open>fps()\<close> is a positive number within one relative error of the real quotient of
  numerator by denominator, and \<^verbatim>\<open>time()\<close> is a number within three relative errors of
  the real quotient of the frame counter by that rate; when the denominator is 0,
  \<^verbatim>\<open>fps()\<close> is an infinity (a NaN when the numerator is 0 too) and \<^verbatim>\<open>time()\<close> is 0 (a
  NaN); when only the numerator is 0, \<^verbatim>\<open>fps()\<close> is 0 and \<^verbatim>\<open>time()\<close> is an infinity (a
  NaN when the frame counter is 0).  In particular a session at 30000/1001 frames per
  second whose frame counter is 30 has a \<^verbatim>\<open>time()\<close> within \<open>1 / 10 ^ 15\<close> of 1.001
  seconds.
\<close>

theorem time_is_frames_over_fps:
  fixes rnd :: "real \<Rightarrow> real"
  assumes rnd0: "rnd 0 = 0"
    and rnd: "\<forall>x. 1 / 2 ^ 1022 \<le> \<bar>x\<bar> \<and> \<bar>x\<bar> \<le> 2 ^ 1023 \<longrightarrow> \<bar>rnd x - x\<bar> \<le> \<bar>x\<bar> / 2 ^ 53"
  shows "(uint2_x (fps_exact e) \<noteq> 0 \<and> uint2_y (fps_exact e) \<noteq> 0 \<longrightarrow>
            (\<exists>f t. fps rnd e = Finite f \<and> 0 < f \<and>
               \<bar>f - real (unat (uint2_x (fps_exact e))) / real (unat (uint2_y (fps_exact e)))\<bar>
                 \<le> real (unat (uint2_x (fps_exact e))) / real (unat (uint2_y (fps_exact e))) / 2 ^ 53 \<and>
               time rnd e = Finite t \<and>
               \<bar>t - real (unat (total_frames e)) /
                      (real (unat (uint2_x (fps_exact e))) / real (unat (uint2_y (fps_exact e))))\<bar>
                 \<le> 3 * (real (unat (total_frames e)) /
                      (real (unat (uint2_x (fps_exact e))) / real (unat (uint2_y (fps_exact e))))) / 2 ^ 53)) \<and>
         (uint2_y (fps_exact e) = 0 \<longrightarrow>
            fps rnd e = (if uint2_x (fps_exact e) = 0 then NaN else Infinity) \<and>
            time rnd e = (if uint2_x (fps_exact e) = 0 then NaN else Finite 0)) \<and>
         (uint2_x (fps_exact e) = 0 \<and> uint2_y (fps_exact e) \<noteq> 0 \<longrightarrow>
            fps rnd e = Finite 0 \<and>
            time rnd e = (if total_frames e = 0 then NaN else Infinity)) \<and>
         (fps_exact e = \<lparr>uint2_x = 30000, uint2_y = 1001\<rparr> \<and> total_frames e = 30 \<longrightarrow>
            (\<exists>t. time rnd e = Finite t \<and> \<bar>t - 1001 / 1000\<bar> \<le> 1 / 10 ^ 15))"
proof -
  define a where "a = real (unat (uint2_x (fps_exact e)))"
  define b where "b = real (unat (uint2_y (fps_exact e)))"
  define n where "n = real (unat (total_frames e))"
  have fps_eq: "fps rnd e = fdiv rnd (Finite a) (Finite b)"
    by (simp add: fps_def fps_exact_def double_of_uint32_def a_def b_def)
  have time_eq: "time rnd e = fdiv rnd (Finite n) (fps rnd e)"
    by (simp add: time_def double_of_uint32_def n_def)
  have general: "\<exists>f t. fps rnd e = Finite f \<and> 0 < f \<and> \<bar>f - a / b\<bar> \<le> a / b / 2 ^ 53 \<and>
               time rnd e = Finite t \<and> \<bar>t - n / (a / b)\<bar> \<le> 3 * (n / (a / b)) / 2 ^ 53"
    if nz: "uint2_x (fps_exact e) \<noteq> 0" "uint2_y (fps_exact e) \<noteq> 0"
  proof -
    have a: "1 \<le> a" "a \<le> 2 ^ 32"
      unfolding a_def by (rule real_unat32_range [OF nz(1)])+
    have b: "1 \<le> b" "b \<le> 2 ^ 32"
      unfolding b_def by (rule real_unat32_range [OF nz(2)])+
    from b have fps_f: "fps rnd e = Finite (rnd (a / b))" by (simp add: fps_eq)
    show ?thesis
    proof (cases "total_frames e = 0")
      case True
      then have n0: "n = 0" by (simp add: n_def)
      from time_error_bound [OF rnd a b, of 1]
      have f: "0 < rnd (a / b)" "\<bar>rnd (a / b) - a / b\<bar> \<le> a / b / 2 ^ 53" by simp_all
      from f(1) have "time rnd e = Finite 0" by (simp add: time_eq fps_f n0 rnd0)
      with f fps_f n0 show ?thesis by simp
    next
      case False
      have n: "1 \<le> n" "n \<le> 2 ^ 32"
        unfolding n_def by (rule real_unat32_range [OF False])+
      from time_error_bound [OF rnd a b n]
      have f: "0 < rnd (a / b)" "\<bar>rnd (a / b) - a / b\<bar> \<le> a / b / 2 ^ 53"
        and t: "\<bar>rnd (n / rnd (a / b)) - n / (a / b)\<bar> \<le> 3 * (n / (a / b)) / 2 ^ 53"
        by simp_all
      from f(1) have "time rnd e = Finite (rnd (n / rnd (a / b)))" by (simp add: time_eq fps_f)
      with f t fps_f show ?thesis by simp
    qed
  qed
  have zero_den: "fps rnd e = (if uint2_x (fps_exact e) = 0 then NaN else Infinity) \<and>
            time rnd e = (if uint2_x (fps_exact e) = 0 then NaN else Finite 0)"
    if "uint2_y (fps_exact e) = 0"
  proof -
    from that have b0: "b = 0" by (simp add: b_def)
    have a0: "a = 0 \<longleftrightarrow> uint2_x (fps_exact e) = 0" by (simp add: a_def unsigned_eq_0_iff)
    have "fps rnd e = (if uint2_x (fps_exact e) = 0 then NaN else Infinity)"
      using a0 by (simp add: fps_eq b0)
    then show ?thesis by (simp add: time_eq)
  qed
  have zero_num: "fps rnd e = Finite 0 \<and> time rnd e = (if total_frames e = 0 then NaN else Infinity)"
    if "uint2_x (fps_exact e) = 0 \<and> uint2_y (fps_exact e) \<noteq> 0"
  proof -
    from that have a0: "a = 0" and b0: "b \<noteq> 0" by (simp_all add: a_def b_def unsigned_eq_0_iff)
    have n0: "n = 0 \<longleftrightarrow> total_frames e = 0" by (simp add: n_def unsigned_eq_0_iff)
    from a0 b0 have "fps rnd e = Finite 0" by (simp add: fps_eq rnd0)
    then show ?thesis using n0 by (simp add: time_eq)
  qed
  have scenario: "\<exists>t. time rnd e = Finite t \<and> \<bar>t - 1001 / 1000\<bar> \<le> 1 / 10 ^ 15"
    if sc: "fps_exact e = \<lparr>uint2_x = 30000, uint2_y = 1001\<rparr> \<and> total_frames e = 30"
  proof -
    from sc have v: "a = 30000" "b = 1001" "n = 30" by (simp_all add: a_def b_def n_def)
    from sc have "uint2_x (fps_exact e) \<noteq> 0" "uint2_y (fps_exact e) \<noteq> 0" by simp_all
    from general [OF this] obtain t where t: "time rnd e = Finite t"
      and "\<bar>t - n / (a / b)\<bar> \<le> 3 * (n / (a / b)) / 2 ^ 53" by blast
    then have "\<bar>t - 1001 / 1000\<bar> \<le> 3 * (1001 / 1000) / 2 ^ 53" by (simp add: v)
    also have "\<dots> \<le> (1 :: real) / 10 ^ 15" by simp
    finally show ?thesis using t by blast
  qed
  from general zero_den zero_num scenario show ?thesis
    unfolding a_def b_def n_def by blast
qed

theorem time_is_frames_over_fps_witness:
  "(\<exists>t. time round_binary64 (session_1080p (None :: nat option)\<lparr>frames_encoded := 30\<rparr>) = Finite t \<and>
        \<bar>t - 1001 / 1000\<bar> \<le> 1 / 10 ^ 15) \<and>
   (\<exists>t. time round_binary64 (session_720p (None :: nat option)\<lparr>frames_encoded := 50\<rparr>) = Finite t \<and>
        \<bar>t - 2\<bar> \<le> 6 / 2 ^ 53)"
proof -
  have r: "\<forall>x. 1 / 2 ^ 1022 \<le> \<bar>x\<bar> \<and> \<bar>x\<bar> \<le> 2 ^ 1023 \<longrightarrow>
             \<bar>round_binary64 x - x\<bar> \<le> \<bar>x\<bar> / 2 ^ 53"
    by (simp only: round_binary64_error simp_thms)
  let ?e1 = "session_1080p (None :: nat option)\<lparr>frames_encoded := 30\<rparr>"
  let ?e2 = "session_720p (None :: nat option)\<lparr>frames_encoded := 50\<rparr>"
  have s: "fps_exact ?e1 = \<lparr>uint2_x = 30000, uint2_y = 1001\<rparr> \<and> total_frames ?e1 = 30"
    by (simp add: fps_exact_def total_frames_def session_1080p_def)
  from time_is_frames_over_fps [of round_binary64 ?e1, OF round_binary64_zero r] s
  have 1: "\<exists>t. time round_binary64 ?e1 = Finite t \<and> \<bar>t - 1001 / 1000\<bar> \<le> 1 / 10 ^ 15"
    by blast
  have v: "uint2_x (fps_exact ?e2) = 25" "uint2_y (fps_exact ?e2) = 1" "total_frames ?e2 = 50"
    by (simp_all add: fps_exact_def total_frames_def session_720p_def)
  have "uint2_x (fps_exact ?e2) \<noteq> 0 \<and> uint2_y (fps_exact ?e2) \<noteq> 0" by (simp add: v)
  with time_is_frames_over_fps [of round_binary64 ?e2, OF round_binary64_zero r]
  obtain t where t: "time round_binary64 ?e2 = Finite t"
    and "\<bar>t - real (unat (total_frames ?e2)) /
             (real (unat (uint2_x (fps_exact ?e2))) / real (unat (uint2_y (fps_exact ?e2))))\<bar>
         \<le> 3 * (real (unat (total_frames ?e2)) /
             (real (unat (uint2_x (fps_exact ?e2))) / real (unat (uint2_y (fps_exact ?e2))))) / 2 ^ 53"
    by blast
  then have "\<bar>t - 2\<bar> \<le> 6 / 2 ^ 53" unfolding v by simp
  with t have 2: "\<exists>t. time round_binary64 ?e2 = Finite t \<and> \<bar>t - 2\<bar> \<le> 6 / 2 ^ 53" by blast
  from 1 2 show ?thesis ..
qed

section \<open>Properties of the operations modelled from the specification\<close>

subsection \<open>The chunk delivery path\<close>

lemma make_chunk_bytes [simp]:
  "make_chunk st (e\<lparr>bytes_encoded := b\<rparr>) k p = make_chunk st e k p"
  by (simp add: make_chunk_def)

lemma deliver_frame:
  "deliver st ps (e, k, t) = Inr (e', k', t') \<Longrightarrow> \<exists>b. e' = e\<lparr>bytes_encoded := b\<rparr>"
proof (induction ps arbitrary: e k t)
  case Nil
  then have "e' = e\<lparr>bytes_encoded := bytes_encoded e\<rparr>" by simp
  then show ?case ..
next
  case (Cons p ps)
  from Cons.prems obtain cb where cb: "data_cb e = Some cb"
    by (cases "data_cb e") simp_all
  with Cons.prems have "deliver st ps (e\<lparr>bytes_encoded := bytes_encoded e + of_nat (length p)\<rparr>, k + 1,
      t @ [(cb, make_chunk st e k p)]) = Inr (e', k', t')" by simp
  from Cons.IH [OF this] obtain b
    where "e' = e\<lparr>bytes_encoded := bytes_encoded e + of_nat (length p)\<rparr>\<lparr>bytes_encoded := b\<rparr>" ..
  then have "e' = e\<lparr>bytes_encoded := b\<rparr>" by simp
  then show ?case ..
qed

lemma deliver_callback:
  assumes "data_cb e = Some cb"
  shows "\<exists>cs. deliver st ps (e, k, t) =
            Inr (e\<lparr>bytes_encoded := bytes_encoded e + of_nat (sum_list (map length ps))\<rparr>,
                 k + of_nat (length ps), t @ map (Pair cb) cs) \<and>
          map data cs = ps \<and>
          map index cs = map (\<lambda>i. k + of_nat i) [0..<length ps] \<and>
          (\<forall>c \<in> set cs. timestamp c = fst (st (fps_xy e) (frames_encoded e) (index c)) \<and>
                         duration c = snd (st (fps_xy e) (frames_encoded e) (index c)))"
  using assms
proof (induction ps arbitrary: e k t)
  case Nil
  then show ?case by simp
next
  case (Cons p ps)
  let ?e = "e\<lparr>bytes_encoded := bytes_encoded e + of_nat (length p)\<rparr>"
  let ?c = "make_chunk st e k p"
  from Cons.prems have "data_cb ?e = Some cb" by simp
  from Cons.IH [OF this, of "k + 1" "t @ [(cb, ?c)]"]
  obtain cs where d: "deliver st ps (?e, k + 1, t @ [(cb, ?c)]) =
            Inr (?e\<lparr>bytes_encoded := bytes_encoded ?e + of_nat (sum_list (map length ps))\<rparr>,
                 k + 1 + of_nat (length ps), (t @ [(cb, ?c)]) @ map (Pair cb) cs)"
    and dat: "map data cs = ps"
    and idx: "map index cs = map (\<lambda>i. k + 1 + of_nat i) [0..<length ps]"
    and ts: "\<forall>c \<in> set cs. timestamp c = fst (st (fps_xy ?e) (frames_encoded ?e) (index c)) \<and>
                         duration c = snd (st (fps_xy ?e) (frames_encoded ?e) (index c))"
    by blast
  have 1: "deliver st (p # ps) (e, k, t) =
            Inr (e\<lparr>bytes_encoded := bytes_encoded e + of_nat (sum_list (map length (p # ps)))\<rparr>,
                 k + of_nat (length (p # ps)), t @ map (Pair cb) (?c # cs))"
    using Cons.prems d by (simp add: add.assoc add.commute)
  have 2: "map data (?c # cs) = p # ps" using dat by (simp add: make_chunk_def)
  have "map (\<lambda>i. k + of_nat i) [0..<length (p # ps)] = k # map (\<lambda>i. k + 1 + of_nat i) [0..<length ps]"
    by (simp add: upt_conv_Cons map_Suc_upt [symmetric] add.assoc del: upt_Suc)
  then have 3: "map index (?c # cs) = map (\<lambda>i. k + of_nat i) [0..<length (p # ps)]"
    using idx by (simp add: make_chunk_def)
  have 4: "\<forall>c \<in> set (?c # cs). timestamp c = fst (st (fps_xy e) (frames_encoded e) (index c)) \<and>
                         duration c = snd (st (fps_xy e) (frames_encoded e) (index c))"
    using ts by (simp add: make_chunk_def)
  show ?case
  proof (intro exI conjI)
    show "deliver st (p # ps) (e, k, t) =
            Inr (e\<lparr>bytes_encoded := bytes_encoded e + of_nat (sum_list (map length (p # ps)))\<rparr>,
                 k + of_nat (length (p # ps)), t @ map (Pair cb) (?c # cs))" by (rule 1)
    show "map data (?c # cs) = p # ps" by (rule 2)
    show "map index (?c # cs) = map (\<lambda>i. k + of_nat i) [0..<length (p # ps)]" by (rule 3)
    show "\<forall>c \<in> set (?c # cs). timestamp c = fst (st (fps_xy e) (frames_encoded e) (index c)) \<and>
                         duration c = snd (st (fps_xy e) (frames_encoded e) (index c))" by (rule 4)
  qed
qed

subsection \<open>One call, and a sequence of calls\<close>

lemma submit_frame_rejected:
  "\<not> accepted r \<Longrightarrow> submit_frame st flag r s = Inr (False, s)"
  by (simp add: submit_frame_def)

lemma submit_frame_accepted:
  assumes "accepted r" "data_cb e = Some cb"
  shows "\<exists>cs. submit_frame st flag r (e, k, t) =
            Inr (True,
              (e\<lparr>bytes_encoded := bytes_encoded e + of_nat (sum_list (map length (payloads r))),
                 frames_encoded := frames_encoded e + 1\<rparr>,
               k + of_nat (length (payloads r)), t @ map (Pair cb) cs)) \<and>
          map data cs = payloads r"
proof -
  from deliver_callback [OF assms(2), of st "payloads r" k t]
  obtain cs where d: "deliver st (payloads r) (e, k, t) =
            Inr (e\<lparr>bytes_encoded := bytes_encoded e + of_nat (sum_list (map length (payloads r)))\<rparr>,
                 k + of_nat (length (payloads r)), t @ map (Pair cb) cs)"
    and dat: "map data cs = payloads r" by blast
  from assms(1) d have "submit_frame st flag r (e, k, t) =
            Inr (True,
              (e\<lparr>bytes_encoded := bytes_encoded e + of_nat (sum_list (map length (payloads r))),
                 frames_encoded := frames_encoded e + 1\<rparr>,
               k + of_nat (length (payloads r)), t @ map (Pair cb) cs))"
    by (simp add: submit_frame_def)
  with dat show ?thesis by blast
qed

lemma flush_rejected:
  "\<not> accepted r \<Longrightarrow> flush st r s = Inr (False, s)"
  by (simp add: flush_def)

lemma flush_accepted:
  assumes "accepted r" "data_cb e = Some cb"
  shows "\<exists>cs. flush st r (e, k, t) =
            Inr (True, (e\<lparr>bytes_encoded := 0, frames_encoded := 0\<rparr>, 0, t @ map (Pair cb) cs)) \<and>
          map data cs = payloads r \<and>
          map index cs = map (\<lambda>i. k + of_nat i) [0..<length (payloads r)] \<and>
          (\<forall>c \<in> set cs. timestamp c = fst (st (fps_xy e) (frames_encoded e) (index c)) \<and>
                         duration c = snd (st (fps_xy e) (frames_encoded e) (index c)))"
proof -
  from deliver_callback [OF assms(2), of st "payloads r" k t]
  obtain cs where d: "deliver st (payloads r) (e, k, t) =
            Inr (e\<lparr>bytes_encoded := bytes_encoded e + of_nat (sum_list (map length (payloads r)))\<rparr>,
                 k + of_nat (length (payloads r)), t @ map (Pair cb) cs)"
    and rest: "map data cs = payloads r"
      "map index cs = map (\<lambda>i. k + of_nat i) [0..<length (payloads r)]"
      "\<forall>c \<in> set cs. timestamp c = fst (st (fps_xy e) (frames_encoded e) (index c)) \<and>
                         duration c = snd (st (fps_xy e) (frames_encoded e) (index c))" by blast
  from assms(1) d have "flush st r (e, k, t) =
            Inr (True, (e\<lparr>bytes_encoded := 0, frames_encoded := 0\<rparr>, 0, t @ map (Pair cb) cs))"
    by (simp add: flush_def)
  with rest show ?thesis by blast
qed

lemma submit_frame_frame:
  assumes "submit_frame st flag r (e, k, t) = Inr (ok, (e', k', t'))"
  shows "\<exists>b n. e' = e\<lparr>bytes_encoded := b, frames_encoded := n\<rparr>"
proof (cases "accepted r")
  case False
  with assms have "e' = e\<lparr>bytes_encoded := bytes_encoded e, frames_encoded := frames_encoded e\<rparr>"
    by (simp add: submit_frame_def)
  then show ?thesis by blast
next
  case True
  with assms obtain e1 k1 t1 where d: "deliver st (payloads r) (e, k, t) = Inr (e1, k1, t1)"
    and e': "e' = e1\<lparr>frames_encoded := frames_encoded e1 + 1\<rparr>"
    by (cases "deliver st (payloads r) (e, k, t)") (auto simp: submit_frame_def)
  from deliver_frame [OF d] obtain b where "e1 = e\<lparr>bytes_encoded := b\<rparr>" ..
  with e' have "e' = e\<lparr>bytes_encoded := b, frames_encoded := frames_encoded e + 1\<rparr>" by simp
  then show ?thesis by blast
qed

lemma flush_frame:
  assumes "flush st r (e, k, t) = Inr (ok, (e', k', t'))"
  shows "\<exists>b n. e' = e\<lparr>bytes_encoded := b, frames_encoded := n\<rparr>"
proof (cases "accepted r")
  case False
  with assms have "e' = e\<lparr>bytes_encoded := bytes_encoded e, frames_encoded := frames_encoded e\<rparr>"
    by (simp add: flush_def)
  then show ?thesis by blast
next
  case True
  with assms obtain e1 k1 t1 where d: "deliver st (payloads r) (e, k, t) = Inr (e1, k1, t1)"
    and e': "e' = e1\<lparr>bytes_encoded := 0, frames_encoded := 0\<rparr>"
    by (cases "deliver st (payloads r) (e, k, t)") (auto simp: flush_def)
  from deliver_frame [OF d] obtain b where "e1 = e\<lparr>bytes_encoded := b\<rparr>" ..
  with e' have "e' = e\<lparr>bytes_encoded := 0, frames_encoded := 0\<rparr>" by simp
  then show ?thesis by blast
qed

lemma step_frame:
  assumes "step st c (e, k, t) = Inr (ok, (e', k', t'))"
  shows "\<exists>b n. e' = e\<lparr>bytes_encoded := b, frames_encoded := n\<rparr>"
proof (cases c)
  case (Submit flag r)
  with assms show ?thesis by (simp add: submit_frame_frame)
next
  case (Flush r)
  with assms show ?thesis by (simp add: flush_frame)
qed

lemma run_frame:
  "run st cs (e, k, t) = Inr (oks, (e', k', t')) \<Longrightarrow>
     \<exists>b n. e' = e\<lparr>bytes_encoded := b, frames_encoded := n\<rparr>"
proof (induction cs arbitrary: e k t oks)
  case Nil
  then have "e' = e\<lparr>bytes_encoded := bytes_encoded e, frames_encoded := frames_encoded e\<rparr>"
    by simp
  then show ?case by blast
next
  case (Cons c cs)
  from Cons.prems obtain ok e1 k1 t1 oks1
    where s: "step st c (e, k, t) = Inr (ok, (e1, k1, t1))"
      and r: "run st cs (e1, k1, t1) = Inr (oks1, (e', k', t'))"
    by (auto split: sum.splits)
  from step_frame [OF s] obtain b1 n1
    where e1: "e1 = e\<lparr>bytes_encoded := b1, frames_encoded := n1\<rparr>" by blast
  from Cons.IH [OF r] obtain b n
    where "e' = e1\<lparr>bytes_encoded := b, frames_encoded := n\<rparr>" by blast
  with e1 have "e' = e\<lparr>bytes_encoded := b, frames_encoded := n\<rparr>" by simp
  then show ?case by blast
qed

lemma step_callback:
  assumes "data_cb e = Some cb"
  shows "\<exists>ok e' k' cs. step st c (e, k, t) = Inr (ok, (e', k', t @ map (Pair cb) cs)) \<and>
           data_cb e' = Some cb \<and>
           map data cs = (if accepted (op_reply c) then payloads (op_reply c) else [])"
proof (cases c)
  case (Submit flag r)
  show ?thesis
  proof (cases "accepted r")
    case True
    let ?e' = "e\<lparr>bytes_encoded := bytes_encoded e + of_nat (sum_list (map length (payloads r))),
                 frames_encoded := frames_encoded e + 1\<rparr>"
    from submit_frame_accepted [OF True assms, of st flag k t] obtain cs
      where sf: "submit_frame st flag r (e, k, t) =
            Inr (True, (?e', k + of_nat (length (payloads r)), t @ map (Pair cb) cs))"
        and dat: "map data cs = payloads r" by blast
    show ?thesis
    proof (intro exI conjI)
      from sf Submit show "step st c (e, k, t) =
            Inr (True, (?e', k + of_nat (length (payloads r)), t @ map (Pair cb) cs))" by simp
      from assms show "data_cb ?e' = Some cb" by simp
      from dat True Submit
      show "map data cs = (if accepted (op_reply c) then payloads (op_reply c) else [])" by simp
    qed
  next
    case False
    show ?thesis
    proof (intro exI conjI)
      from False Submit show "step st c (e, k, t) = Inr (False, (e, k, t @ map (Pair cb) []))"
        by (simp add: submit_frame_rejected)
      from assms show "data_cb e = Some cb" .
      from False Submit
      show "map data [] = (if accepted (op_reply c) then payloads (op_reply c) else [])" by simp
    qed
  qed
next
  case (Flush r)
  show ?thesis
  proof (cases "accepted r")
    case True
    let ?e' = "e\<lparr>bytes_encoded := 0, frames_encoded := 0\<rparr>"
    from flush_accepted [OF True assms, of st k t] obtain cs
      where fl: "flush st r (e, k, t) = Inr (True, (?e', 0, t @ map (Pair cb) cs))"
        and dat: "map data cs = payloads r" by blast
    show ?thesis
    proof (intro exI conjI)
      from fl Flush show "step st c (e, k, t) = Inr (True, (?e', 0, t @ map (Pair cb) cs))"
        by simp
      from assms show "data_cb ?e' = Some cb" by simp
      from dat True Flush
      show "map data cs = (if accepted (op_reply c) then payloads (op_reply c) else [])" by simp
    qed
  next
    case False
    show ?thesis
    proof (intro exI conjI)
      from False Flush show "step st c (e, k, t) = Inr (False, (e, k, t @ map (Pair cb) []))"
        by (simp add: flush_rejected)
      from assms show "data_cb e = Some cb" .
      from False Flush
      show "map data [] = (if accepted (op_reply c) then payloads (op_reply c) else [])" by simp
    qed
  qed
qed

lemma run_callback:
  assumes "data_cb e = Some cb"
  shows "\<exists>oks e' k' cs. run st ops (e, k, t) = Inr (oks, (e', k', t @ map (Pair cb) cs)) \<and>
           data_cb e' = Some cb \<and> length oks = length ops \<and>
           map data cs = completed_payloads ops"
  using assms
proof (induction ops arbitrary: e k t)
  case Nil
  show ?case
  proof (intro exI conjI)
    show "run st [] (e, k, t) = Inr ([], (e, k, t @ map (Pair cb) []))" by simp
    from Nil show "data_cb e = Some cb" .
    show "length ([] :: bool list) = length ([] :: op list)" by simp
    show "map data [] = completed_payloads []" by (simp add: completed_payloads_def)
  qed
next
  case (Cons c ops)
  from step_callback [OF Cons.prems, of st c k t] obtain ok e1 k1 cs1
    where s: "step st c (e, k, t) = Inr (ok, (e1, k1, t @ map (Pair cb) cs1))"
      and cb1: "data_cb e1 = Some cb"
      and d1: "map data cs1 = (if accepted (op_reply c) then payloads (op_reply c) else [])"
    by blast
  from Cons.IH [OF cb1, of k1 "t @ map (Pair cb) cs1"] obtain oks e' k' cs
    where r: "run st ops (e1, k1, t @ map (Pair cb) cs1) =
                Inr (oks, (e', k', (t @ map (Pair cb) cs1) @ map (Pair cb) cs))"
      and cb': "data_cb e' = Some cb" and len: "length oks = length ops"
      and d: "map data cs = completed_payloads ops" by blast
  show ?case
  proof (intro exI conjI)
    from s r show "run st (c # ops) (e, k, t) =
        Inr (ok # oks, (e', k', t @ map (Pair cb) (cs1 @ cs)))" by simp
    show "data_cb e' = Some cb" by (rule cb')
    from len show "length (ok # oks) = length (c # ops)" by simp
    from d1 d show "map data (cs1 @ cs) = completed_payloads (c # ops)"
      by (simp add: completed_payloads_def)
  qed
qed

lemma run_submits:
  assumes "data_cb e = Some cb" "\<forall>x \<in> set subs. accepted (snd x)"
  shows "\<exists>e1 k1 t1. run st (map (\<lambda>(flag, r). Submit flag r) subs) (e, k, t) =
            Inr (replicate (length subs) True, (e1, k1, t1)) \<and>
          data_cb e1 = Some cb \<and>
          total_frames e1 = total_frames e + of_nat (length subs)"
  using assms
proof (induction subs arbitrary: e k t)
  case Nil
  then show ?case by simp
next
  case (Cons x subs)
  obtain flag r where x: "x = (flag, r)" by (cases x)
  with Cons.prems have acc: "accepted r" by simp
  from submit_frame_accepted [OF acc Cons.prems(1), of st flag k t] obtain cs0
    where s0: "submit_frame st flag r (e, k, t) =
            Inr (True,
              (e\<lparr>bytes_encoded := bytes_encoded e + of_nat (sum_list (map length (payloads r))),
                 frames_encoded := frames_encoded e + 1\<rparr>,
               k + of_nat (length (payloads r)), t @ map (Pair cb) cs0))" by blast
  define e0 where "e0 = e\<lparr>bytes_encoded := bytes_encoded e + of_nat (sum_list (map length (payloads r))),
                 frames_encoded := frames_encoded e + 1\<rparr>"
  define k0 where "k0 = k + of_nat (length (payloads r))"
  define t0 where "t0 = t @ map (Pair cb) cs0"
  from s0 have s: "submit_frame st flag r (e, k, t) = Inr (True, (e0, k0, t0))"
    by (simp only: e0_def k0_def t0_def)
  from Cons.prems(1) have cb0: "data_cb e0 = Some cb" by (simp add: e0_def)
  have f0: "frames_encoded e0 = frames_encoded e + 1" by (simp add: e0_def)
  from Cons.prems have "\<forall>x \<in> set subs. accepted (snd x)" by simp
  from Cons.IH [OF cb0 this, of k0 t0] obtain e1 k1 t1
    where r: "run st (map (\<lambda>(flag, r). Submit flag r) subs) (e0, k0, t0) =
            Inr (replicate (length subs) True, (e1, k1, t1))"
      and cb1: "data_cb e1 = Some cb"
      and f1: "total_frames e1 = total_frames e0 + of_nat (length subs)" by blast
  from s r x have "run st (map (\<lambda>(flag, r). Submit flag r) (x # subs)) (e, k, t) =
            Inr (replicate (length (x # subs)) True, (e1, k1, t1))" by simp
  moreover from f0 f1 have "total_frames e1 = total_frames e + of_nat (length (x # subs))"
    by (simp add: total_frames_def)
  ultimately show ?case using cb1 by blast
qed

subsection \<open>Flush delivers, then resets\<close>

text \<open>
  Claim C1.  On a session with a callback, after any sequence of submissions that the
  hardware accepts (each reports success, and the frame counter has advanced by their
  number), a flush that the hardware accepts reports success; it invokes the callback
  once for each buffered payload, in order, with that payload as the chunk's data and
  with a timestamp computed from the frame counter as it was before the reset; and when
  it returns, \<^verbatim>\<open>total_frames()\<close> and \<^verbatim>\<open>total_bytes()\<close> are both 0.
\<close>

theorem flush_delivers_then_resets:
  assumes "data_cb e = Some cb"
    and "\<forall>x \<in> set subs. accepted (snd x)"
    and "accepted r"
  shows "\<exists>e1 k1 t1 e2 cs.
           run st (map (\<lambda>(flag, q). Submit flag q) subs) (e, k, t) =
             Inr (replicate (length subs) True, (e1, k1, t1)) \<and>
           total_frames e1 = total_frames e + of_nat (length subs) \<and>
           flush st r (e1, k1, t1) = Inr (True, (e2, 0, t1 @ map (Pair cb) cs)) \<and>
           map data cs = payloads r \<and>
           (\<forall>c \<in> set cs. timestamp c = fst (st (fps_exact e1) (total_frames e1) (index c))) \<and>
           total_frames e2 = 0 \<and> total_bytes e2 = 0"
proof -
  from run_submits [OF assms(1,2), of st k t] obtain e1 k1 t1
    where r: "run st (map (\<lambda>(flag, q). Submit flag q) subs) (e, k, t) =
             Inr (replicate (length subs) True, (e1, k1, t1))"
      and cb1: "data_cb e1 = Some cb"
      and f1: "total_frames e1 = total_frames e + of_nat (length subs)" by blast
  from flush_accepted [OF assms(3) cb1, of st k1 t1] obtain cs
    where f: "flush st r (e1, k1, t1) =
            Inr (True, (e1\<lparr>bytes_encoded := 0, frames_encoded := 0\<rparr>, 0, t1 @ map (Pair cb) cs))"
      and dat: "map data cs = payloads r"
      and ts: "\<forall>c \<in> set cs. timestamp c = fst (st (fps_xy e1) (frames_encoded e1) (index c)) \<and>
                         duration c = snd (st (fps_xy e1) (frames_encoded e1) (index c))" by blast
  let ?e2 = "e1\<lparr>bytes_encoded := 0, frames_encoded := 0\<rparr>"
  have z: "total_frames ?e2 = 0" "total_bytes ?e2 = 0"
    by (simp_all add: total_frames_def total_bytes_def)
  from ts have ts': "\<forall>c \<in> set cs. timestamp c = fst (st (fps_exact e1) (total_frames e1) (index c))"
    by (simp add: fps_exact_def total_frames_def)
  show ?thesis
  proof (intro exI conjI)
    show "run st (map (\<lambda>(flag, q). Submit flag q) subs) (e, k, t) =
             Inr (replicate (length subs) True, (e1, k1, t1))" by (rule r)
    show "total_frames e1 = total_frames e + of_nat (length subs)" by (rule f1)
    show "flush st r (e1, k1, t1) = Inr (True, (?e2, 0, t1 @ map (Pair cb) cs))" by (rule f)
    show "map data cs = payloads r" by (rule dat)
    show "\<forall>c \<in> set cs. timestamp c = fst (st (fps_exact e1) (total_frames e1) (index c))"
      by (rule ts')
    show "total_frames ?e2 = 0" by (rule z)
    show "total_bytes ?e2 = 0" by (rule z)
  qed
qed

theorem flush_delivers_then_resets_witness:
  "\<exists>e1 e2.
     run frame_units
       (map (\<lambda>(flag, q). Submit flag q)
          [(none, \<lparr>accepted = True, payloads = [[1, 2]]\<rparr>), (idr, \<lparr>accepted = True, payloads = []\<rparr>)])
       (session_1080p (Some ''A''), 0, []) =
       Inr ([True, True], (e1, 1, [(''A'', \<lparr>data = [1, 2], index = 0, timestamp = 0, duration = 1\<rparr>)])) \<and>
     total_frames e1 = 2 \<and> total_bytes e1 = 2 \<and>
     flush frame_units \<lparr>accepted = True, payloads = [[3], [4, 5]]\<rparr>
       (e1, 1, [(''A'', \<lparr>data = [1, 2], index = 0, timestamp = 0, duration = 1\<rparr>)]) =
       Inr (True, (e2, 0, [(''A'', \<lparr>data = [1, 2], index = 0, timestamp = 0, duration = 1\<rparr>),
                           (''A'', \<lparr>data = [3], index = 1, timestamp = 2, duration = 1\<rparr>),
                           (''A'', \<lparr>data = [4, 5], index = 2, timestamp = 2, duration = 1\<rparr>)])) \<and>
     total_frames e2 = 0 \<and> total_bytes e2 = 0"
proof -
  have 1: "data_cb (session_1080p (Some ''A'')) = Some ''A''" by (simp add: session_1080p_def)
  have 2: "\<forall>x \<in> set [(none, \<lparr>accepted = True, payloads = [[1, 2 :: byte]]\<rparr>),
                        (idr, \<lparr>accepted = True, payloads = []\<rparr>)]. accepted (snd x)" by simp
  have 3: "accepted \<lparr>accepted = True, payloads = [[3], [4, 5 :: byte]]\<rparr>" by simp
  from flush_delivers_then_resets [OF 1 2 3, of frame_units 0 "[]"]
  show ?thesis
    by (simp add: submit_frame_def flush_def make_chunk_def session_1080p_def frame_units_def
        total_frames_def total_bytes_def)
qed

subsection \<open>Submission and the frame counter\<close>

text \<open>
  Claim C2.  When the hardware rejects the encode call, \<^verbatim>\<open>submit_frame\<close> returns false
  and leaves the whole session as it was: \<^verbatim>\<open>total_frames()\<close>, \<^verbatim>\<open>total_bytes()\<close>, the
  handles (the session stays open) and the invocations.  When the hardware accepts it, on a
  session with a callback, \<^verbatim>\<open>submit_frame\<close> returns true, the frame counter is the one
  before plus one (in 32-bit arithmetic) and the session handle is the same.  Whenever
  \<^verbatim>\<open>submit_frame\<close> returns, it returns what the hardware answered, and the frame counter
  has advanced by one exactly when that is true.
\<close>

theorem submit_frame_counts_accepted_frames:
  "(\<not> accepted r \<longrightarrow> submit_frame st flag r (e, k, t) = Inr (False, (e, k, t))) \<and>
   (accepted r \<longrightarrow> data_cb e = Some cb \<longrightarrow>
      (\<exists>e' k' t'. submit_frame st flag r (e, k, t) = Inr (True, (e', k', t')) \<and>
         total_frames e' = total_frames e + 1 \<and> session e' = session e)) \<and>
   (\<forall>ok e' k' t'. submit_frame st flag r (e, k, t) = Inr (ok, (e', k', t')) \<longrightarrow>
      ok = accepted r \<and> total_frames e' = (if ok then total_frames e + 1 else total_frames e))"
proof (intro conjI impI allI)
  assume "\<not> accepted r"
  then show "submit_frame st flag r (e, k, t) = Inr (False, (e, k, t))"
    by (rule submit_frame_rejected)
next
  assume "accepted r" "data_cb e = Some cb"
  from submit_frame_accepted [OF this, of st flag k t] obtain cs
    where s: "submit_frame st flag r (e, k, t) =
            Inr (True,
              (e\<lparr>bytes_encoded := bytes_encoded e + of_nat (sum_list (map length (payloads r))),
                 frames_encoded := frames_encoded e + 1\<rparr>,
               k + of_nat (length (payloads r)), t @ map (Pair cb) cs))" by blast
  let ?e' = "e\<lparr>bytes_encoded := bytes_encoded e + of_nat (sum_list (map length (payloads r))),
                 frames_encoded := frames_encoded e + 1\<rparr>"
  have "total_frames ?e' = total_frames e + 1" "session ?e' = session e"
    by (simp_all add: total_frames_def)
  with s show "\<exists>e' k' t'. submit_frame st flag r (e, k, t) = Inr (True, (e', k', t')) \<and>
         total_frames e' = total_frames e + 1 \<and> session e' = session e"
    by blast
next
  fix ok e' k' t'
  assume s: "submit_frame st flag r (e, k, t) = Inr (ok, (e', k', t'))"
  show "ok = accepted r"
  proof (cases "accepted r")
    case False
    with s show ?thesis by (simp add: submit_frame_def)
  next
    case True
    with s show ?thesis
      by (cases "deliver st (payloads r) (e, k, t)") (auto simp: submit_frame_def)
  qed
  show "total_frames e' = (if ok then total_frames e + 1 else total_frames e)"
  proof (cases "accepted r")
    case False
    with s show ?thesis by (simp add: submit_frame_def)
  next
    case True
    with s obtain e1 k1 t1 where d: "deliver st (payloads r) (e, k, t) = Inr (e1, k1, t1)"
      and e': "e' = e1\<lparr>frames_encoded := frames_encoded e1 + 1\<rparr>" and ok: "ok"
      by (cases "deliver st (payloads r) (e, k, t)") (auto simp: submit_frame_def)
    from deliver_frame [OF d] obtain b where "e1 = e\<lparr>bytes_encoded := b\<rparr>" ..
    with e' ok show ?thesis by (simp add: total_frames_def)
  qed
qed

theorem submit_frame_counts_accepted_frames_witness:
  "submit_frame frame_units none \<lparr>accepted = False, payloads = [[1]]\<rparr> (session_1080p (Some ''A''), 0, [])
     = Inr (False, (session_1080p (Some ''A''), 0, [])) \<and>
   (\<exists>e' k' t'. submit_frame frame_units idr \<lparr>accepted = True, payloads = [[1, 2, 3]]\<rparr>
                  (session_1080p (Some ''A''), 0, []) = Inr (True, (e', k', t')) \<and>
                total_frames e' = 1 \<and> session e' = 0x30)"
proof -
  have cb: "data_cb (session_1080p (Some ''A'')) = Some ''A''" by (simp add: session_1080p_def)
  have z: "total_frames (session_1080p (Some ''A'')) + 1 = 1" "session (session_1080p (Some ''A'')) = 0x30"
    by (simp_all add: session_1080p_def total_frames_def)
  have a: "submit_frame frame_units none \<lparr>accepted = False, payloads = [[1]]\<rparr> (session_1080p (Some ''A''), 0, [])
     = Inr (False, (session_1080p (Some ''A''), 0, []))"
    using submit_frame_counts_accepted_frames
      [of "\<lparr>accepted = False, payloads = [[1]]\<rparr>" frame_units none "session_1080p (Some ''A'')" 0 "[]"]
    by simp
  have b: "\<exists>e' k' t'. submit_frame frame_units idr \<lparr>accepted = True, payloads = [[1, 2, 3]]\<rparr>
                  (session_1080p (Some ''A''), 0, []) = Inr (True, (e', k', t')) \<and>
                total_frames e' = 1 \<and> session e' = 0x30"
    using submit_frame_counts_accepted_frames
      [of "\<lparr>accepted = True, payloads = [[1, 2, 3]]\<rparr>" frame_units idr "session_1080p (Some ''A'')" 0 "[]" "''A''"]
      cb
    unfolding z by simp
  from a b show ?thesis ..
qed

subsection \<open>Dimensions and frame rate are fixed\<close>

text \<open>
  Claim C4.  After any sequence of \<^verbatim>\<open>submit_frame\<close> and \<^verbatim>\<open>flush\<close> calls, whatever the
  hardware answers to them, \<^verbatim>\<open>width()\<close>, \<^verbatim>\<open>height()\<close> and \<^verbatim>\<open>fps_exact()\<close> return
  what they returned before the calls; and on a session with a callback every such sequence
  runs to its end.  (The class has no member for the codec, so there is nothing of it
  that a call could change.)
\<close>

theorem submit_flush_keep_dimensions:
  "(\<forall>oks e' k' t'. run st ops (e, k, t) = Inr (oks, (e', k', t')) \<longrightarrow>
      width e' = width e \<and> height e' = height e \<and> fps_exact e' = fps_exact e) \<and>
   (data_cb e \<noteq> None \<longrightarrow> (\<exists>oks s'. run st ops (e, k, t) = Inr (oks, s')))"
proof (intro conjI impI allI)
  fix oks e' k' t'
  assume "run st ops (e, k, t) = Inr (oks, (e', k', t'))"
  from run_frame [OF this] obtain b n
    where "e' = e\<lparr>bytes_encoded := b, frames_encoded := n\<rparr>" by blast
  then show "width e' = width e" "height e' = height e" "fps_exact e' = fps_exact e"
    by (simp_all add: width_def height_def fps_exact_def)
next
  assume "data_cb e \<noteq> None"
  then obtain cb where "data_cb e = Some cb" by blast
  from run_callback [OF this, of st ops k t]
  show "\<exists>oks s'. run st ops (e, k, t) = Inr (oks, s')" by blast
qed

theorem submit_flush_keep_dimensions_witness:
  "\<exists>oks e' k' t'.
     run frame_units
       [Submit none \<lparr>accepted = True, payloads = [[1]]\<rparr>, Submit idr \<lparr>accepted = False, payloads = []\<rparr>,
        Flush \<lparr>accepted = True, payloads = [[2]]\<rparr>, Submit none \<lparr>accepted = True, payloads = []\<rparr>]
       (session_1080p (Some ''A''), 0, []) = Inr (oks, (e', k', t')) \<and>
     width e' = 1920 \<and> height e' = 1080 \<and> fps_exact e' = \<lparr>uint2_x = 30000, uint2_y = 1001\<rparr>"
proof -
  let ?ops = "[Submit none \<lparr>accepted = True, payloads = [[1]]\<rparr>, Submit idr \<lparr>accepted = False, payloads = []\<rparr>,
        Flush \<lparr>accepted = True, payloads = [[2]]\<rparr>, Submit none \<lparr>accepted = True, payloads = []\<rparr>]"
  let ?e = "session_1080p (Some ''A'')"
  note th = submit_flush_keep_dimensions [of frame_units ?ops ?e 0 "[]"]
  have "data_cb ?e \<noteq> None" by (simp add: session_1080p_def)
  with th obtain oks s' where "run frame_units ?ops (?e, 0, []) = Inr (oks, s')" by blast
  then obtain e' k' t' where r: "run frame_units ?ops (?e, 0, []) = Inr (oks, (e', k', t'))"
    by (cases s') auto
  with th have "width e' = width ?e \<and> height e' = height ?e \<and> fps_exact e' = fps_exact ?e"
    by blast
  then have "width e' = 1920 \<and> height e' = 1080 \<and> fps_exact e' = \<lparr>uint2_x = 30000, uint2_y = 1001\<rparr>"
    by (simp add: session_1080p_def width_def height_def fps_exact_def)
  with r show ?thesis by blast
qed

subsection \<open>Replacing the callback\<close>

text \<open>
  Claim C6.  The callback is one slot that \<^verbatim>\<open>set_callback\<close> overwrites.  Let a session
  with the callback \<open>old\<close> run any calls, then \<^verbatim>\<open>set_callback(new)\<close>, then any further
  calls.  The invocations are then those made before, followed by invocations of \<open>old\<close>
  for the chunks of the first calls, followed by invocations of \<open>new\<close> for the chunks of
  the further calls: every chunk delivered after the replacement goes to \<open>new\<close> and only
  to \<open>new\<close>, and each chunk is one invocation of one callback.  The chunks that reach
  \<open>old\<close> carry exactly the payloads completed during the first calls, and the chunks
  that reach \<open>new\<close> exactly the payloads completed during the further calls, each
  payload once and in order: no chunk reaches both callbacks, and none is lost or sent
  again.  The encoder after the
  replacement holds nothing of the callback replaced: it is the same encoder as if the
  slot had been empty before.
\<close>

theorem set_callback_redirects_delivery:
  assumes "data_cb e = Some old"
  shows "\<exists>oks1 e1 k1 cs1 oks2 e2 k2 cs2.
           run st ops1 (e, k, t) = Inr (oks1, (e1, k1, t @ map (Pair old) cs1)) \<and>
           map data cs1 = completed_payloads ops1 \<and>
           data_cb (set_callback (Some new) e1) = Some new \<and>
           set_callback (Some new) e1 = set_callback (Some new) (e1\<lparr>data_cb := None\<rparr>) \<and>
           run st ops2 (set_callback (Some new) e1, k1, t @ map (Pair old) cs1) =
             Inr (oks2, (e2, k2, t @ map (Pair old) cs1 @ map (Pair new) cs2)) \<and>
           map data cs2 = completed_payloads ops2"
proof -
  from run_callback [OF assms, of st ops1 k t] obtain oks1 e1 k1 cs1
    where r1: "run st ops1 (e, k, t) = Inr (oks1, (e1, k1, t @ map (Pair old) cs1))"
      and d1: "map data cs1 = completed_payloads ops1" by blast
  have slot: "data_cb (set_callback (Some new) e1) = Some new" by (simp add: set_callback_def)
  from run_callback [OF slot, of st ops2 k1 "t @ map (Pair old) cs1"] obtain oks2 e2 k2 cs2
    where r2: "run st ops2 (set_callback (Some new) e1, k1, t @ map (Pair old) cs1) =
             Inr (oks2, (e2, k2, (t @ map (Pair old) cs1) @ map (Pair new) cs2))"
      and d2: "map data cs2 = completed_payloads ops2" by blast
  show ?thesis
  proof (intro exI conjI)
    show "run st ops1 (e, k, t) = Inr (oks1, (e1, k1, t @ map (Pair old) cs1))" by (rule r1)
    show "map data cs1 = completed_payloads ops1" by (rule d1)
    show "data_cb (set_callback (Some new) e1) = Some new" by (rule slot)
    show "set_callback (Some new) e1 = set_callback (Some new) (e1\<lparr>data_cb := None\<rparr>)"
      by (simp add: set_callback_def)
    show "run st ops2 (set_callback (Some new) e1, k1, t @ map (Pair old) cs1) =
             Inr (oks2, (e2, k2, t @ map (Pair old) cs1 @ map (Pair new) cs2))"
      using r2 by simp
    show "map data cs2 = completed_payloads ops2" by (rule d2)
  qed
qed

theorem set_callback_redirects_delivery_witness:
  "\<exists>e1 e2.
     run frame_units [Submit none \<lparr>accepted = True, payloads = [[1]]\<rparr>] (session_1080p (Some ''A''), 0, []) =
       Inr ([True], (e1, 1, [(''A'', \<lparr>data = [1], index = 0, timestamp = 0, duration = 1\<rparr>)])) \<and>
     run frame_units [Submit none \<lparr>accepted = True, payloads = [[2]]\<rparr>]
       (set_callback (Some ''B'') e1, 1, [(''A'', \<lparr>data = [1], index = 0, timestamp = 0, duration = 1\<rparr>)]) =
       Inr ([True], (e2, 2, [(''A'', \<lparr>data = [1], index = 0, timestamp = 0, duration = 1\<rparr>),
                            (''B'', \<lparr>data = [2], index = 1, timestamp = 1, duration = 1\<rparr>)]))"
proof -
  have cb: "data_cb (session_1080p (Some ''A'')) = Some ''A''" by (simp add: session_1080p_def)
  from set_callback_redirects_delivery [OF cb, of frame_units
      "[Submit none \<lparr>accepted = True, payloads = [[1]]\<rparr>]" 0 "[]" "''B''"
      "[Submit none \<lparr>accepted = True, payloads = [[2]]\<rparr>]"]
  show ?thesis
    by (simp add: submit_frame_def make_chunk_def session_1080p_def frame_units_def set_callback_def)
qed

subsection \<open>Teardown and the defaulted moves\<close>

text \<open>
  An encoder that still owns its scratch buffer gives back each of its four resources
  once, in the order registration, output stream, session, scratch buffer.
\<close>

lemma destroy_once:
  "pbuf e \<noteq> 0 \<Longrightarrow>
     destroy e = [Unregister_resource (in_registration e), Destroy_stream (out_stream e),
                  Destroy_session (session e), Free_param_buffer (pbuf e)]"
  by (simp add: destroy_def destructor_body_def unique_ptr_dtor_def)

text \<open>
  After a defaulted move, the source and the target hold the same three handles; the
  source differs from the target in the scratch buffer and the callback only.
\<close>

lemma move_construct_shares_handles:
  "move_construct a = (b, a') \<Longrightarrow>
     in_registration a' = in_registration b \<and> out_stream a' = out_stream b \<and>
     session a' = session b \<and> pbuf a' = 0 \<and> pbuf b = pbuf a"
  by (auto simp: move_construct_def moved_from_def)

lemma move_assign_shares_handles:
  "move_assign b a = ((b', a'), freed) \<Longrightarrow>
     in_registration a' = in_registration b' \<and> out_stream a' = out_stream b' \<and>
     session a' = session b' \<and> session b' = session a \<and> pbuf a' = 0 \<and> pbuf b' = pbuf a"
  by (auto simp: move_assign_def moved_from_def)

text \<open>
  Claim C3, evaluated where it fails.  The moves are defaulted, so they copy the three
  handles and leave them in the source as well.  When an opened session is moved into a
  new encoder and both objects are destroyed, the registration, the output stream and the
  session handle of that one session are each released twice, and only the scratch buffer
  once.  When it is move-assigned to a second opened session, the same happens, and the
  registration, the output stream and the session handle that the target held before are
  released by nobody.
\<close>

theorem moved_encoder_torn_down_twice:
  "scope_move_construct (session_1080p (Some (1::nat))) =
     [Unregister_resource 0x10, Destroy_stream 0x20, Destroy_session 0x30, Free_param_buffer 0x1000,
      Unregister_resource 0x10, Destroy_stream 0x20, Destroy_session 0x30] \<and>
   scope_move_assign (session_1080p (Some (1::nat))) (session_720p (Some 2)) =
     [Free_param_buffer 0x2000,
      Unregister_resource 0x10, Destroy_stream 0x20, Destroy_session 0x30, Free_param_buffer 0x1000,
      Unregister_resource 0x10, Destroy_stream 0x20, Destroy_session 0x30]"
  by (simp add: scope_move_construct_def scope_move_assign_def move_construct_def move_assign_def
      moved_from_def destroy_def destructor_body_def unique_ptr_dtor_def session_1080p_def
      session_720p_def)

end
